theory Spec2Isabelle
  imports Main "HOL-Library.Word"
begin

unbundle bit_operations_syntax

section \<open>Python strings and the regular expressions of worksheet\_util\<close>

text \<open>
  The module is Python 2 code (it writes a \<open>str\<close> to a binary file and calls
  \<open>endswith('\n')\<close> on lines read in binary mode) working on byte strings: a line is a \<open>string\<close> (a list of
  8-bit characters). \<open>str.strip()\<close> and the class \<open>\s\<close> of the \<open>re\<close> module (no LOCALE or
  UNICODE flag) use the same six whitespace characters.
\<close>

definition newline :: char where
  "newline = CHR 0x0A"

definition isspace :: "char \<Rightarrow> bool" where
  "isspace c = (c = CHR '' '' \<or> c = CHR 0x09 \<or> c = CHR 0x0A \<or> c = CHR 0x0B
                \<or> c = CHR 0x0C \<or> c = CHR 0x0D)"

definition strip :: "string \<Rightarrow> string" where
  "strip s = rev (dropWhile isspace (rev (dropWhile isspace s)))"

text \<open>
  The patterns of the module, as syntax trees. \<open>Dot d\<close> is \<open>.\<close>, with \<open>d\<close> the DOTALL flag
  of the compiled expression; \<open>NotChr c\<close> is the class \<open>[^c]\<close>; \<open>Bol\<close> and \<open>Eol\<close> are \<open>^\<close>
  and \<open>$\<close> without MULTILINE; \<open>Star\<close> and \<open>Opt\<close> are the greedy \<open>*\<close> and \<open>?\<close>;
  \<open>Group n\<close> is the n-th capturing parenthesis.
\<close>

datatype regex =
    Eps
  | Chr char
  | Dot bool
  | Space
  | NotChr char
  | Bol
  | Eol
  | Seq regex regex
  | Alt regex regex
  | Star regex
  | Opt regex
  | Group nat regex

text \<open>
  A state of the matcher: the number of characters consumed, the rest of the subject, and
  the groups captured so far (the newest binding of a group first).
\<close>

type_synonym mstate = "nat \<times> string \<times> (nat \<times> string) list"

fun one_char :: "(char \<Rightarrow> bool) \<Rightarrow> mstate \<Rightarrow> mstate list" where
  "one_char P (p, [], g) = []"
| "one_char P (p, c # s, g) = (if P c then [(Suc p, s, g)] else [])"

fun remaining :: "mstate \<Rightarrow> nat" where
  "remaining (p, s, g) = length s"

fun capture :: "nat \<Rightarrow> mstate \<Rightarrow> mstate \<Rightarrow> mstate" where
  "capture n (p, s, g) (p', s', g') = (p', s', (n, take (p' - p) s) # g')"

text \<open>
  The backtracking search of the \<open>re\<close> module as a list of successes: \<open>matches r st\<close> lists
  the states in which a match of \<open>r\<close> begun in \<open>st\<close> can end, in the order in which the
  backtracking matcher tries them (greedy repetition: one more iteration before stopping;
  alternation: left before right). The match the module reports is the first of them.
  An iteration of \<open>Star\<close> that consumes nothing is not repeated.
\<close>

function matches :: "regex \<Rightarrow> mstate \<Rightarrow> mstate list" where
  "matches Eps st = [st]"
| "matches (Chr c) st = one_char (\<lambda>x. x = c) st"
| "matches (Dot d) st = one_char (\<lambda>x. d \<or> x \<noteq> newline) st"
| "matches Space st = one_char isspace st"
| "matches (NotChr c) st = one_char (\<lambda>x. x \<noteq> c) st"
| "matches Bol st = (if fst st = 0 then [st] else [])"
| "matches Eol st = (if fst (snd st) = [] \<or> fst (snd st) = [newline] then [st] else [])"
| "matches (Seq a b) st = concat (map (matches b) (matches a st))"
| "matches (Alt a b) st = matches a st @ matches b st"
| "matches (Star r) st =
     concat (map (matches (Star r))
                 (filter (\<lambda>st'. remaining st' < remaining st) (matches r st))) @ [st]"
| "matches (Opt r) st = matches r st @ [st]"
| "matches (Group n r) st = map (capture n st) (matches r st)"
  by pat_completeness auto
termination
  by (relation "measures [\<lambda>(r, st). size r, \<lambda>(r, st). remaining st]") auto

text \<open>A match object: the subject and the final state of the first successful path.\<close>

definition re_match :: "regex \<Rightarrow> string \<Rightarrow> (string \<times> mstate) option" where
  "re_match r s = (case matches r (0, s, []) of [] \<Rightarrow> None | st # _ \<Rightarrow> Some (s, st))"

fun group :: "string \<times> mstate \<Rightarrow> nat \<Rightarrow> string option" where
  "group (s, (p, rest, g)) n = (if n = 0 then Some (take p s) else map_of g n)"

fun seqs :: "regex list \<Rightarrow> regex" where
  "seqs [] = Eps"
| "seqs [r] = r"
| "seqs (r # rs) = Seq r (seqs rs)"

definition lit :: "string \<Rightarrow> regex" where
  "lit s = seqs (map Chr s)"

definition Plus :: "regex \<Rightarrow> regex" where
  "Plus r = Seq r (Star r)"


section \<open>Python values, errors and worksheet items\<close>

text \<open>
  The values the module handles: \<open>None\<close>, byte strings and dictionaries with string keys
  (a dictionary literal is an association list in the order it is written).
\<close>

datatype pyval = PNone | PStr string | PDict "(string \<times> pyval) list"

type_synonym dict = "(string \<times> pyval) list"

datatype error =
    KeyError string
  | TypeError
  | AttributeError
  | UsageError string

fun of_group :: "string option \<Rightarrow> pyval" where
  "of_group None = PNone"
| "of_group (Some s) = PStr s"

text \<open>
  \<open>str(v)\<close>, as the formatting operators apply it. The text Python prints for a dictionary
  depends on the interpreter; it is the parameter \<open>drepr\<close>.
\<close>

fun py_str :: "(dict \<Rightarrow> string) \<Rightarrow> pyval \<Rightarrow> string" where
  "py_str drepr PNone = ''None''"
| "py_str drepr (PStr s) = s"
| "py_str drepr (PDict d) = drepr d"

text \<open>
  An item as the parser returns it is the tuple \<open>(bundle_uuid, value, type)\<close>; an item of
  \<open>worksheet_info['items']\<close> is the tuple \<open>(bundle_info, value, type)\<close>.
\<close>

type_synonym parsed_item = "string option \<times> pyval \<times> string"

type_synonym info_item = "dict option \<times> pyval \<times> string"

record worksheet_info =
  name :: string
  items :: "info_item list"

section \<open>The patterns\<close>

text \<open>
  Each pattern string of the module, as the tree \<open>re.compile\<close> builds from it; the argument
  is the DOTALL flag given to \<open>re.compile\<close>.
  \<^verbatim>\<open>BUNDLE_LINE_REGEX = '^(\[(.*)\])?\s*\{(.*)\}$'\<close>,
  \<^verbatim>\<open>BUNDLE_DISPLAY_DIRECTIVE = '% display (table|default|inline)'\<close>,
  \<^verbatim>\<open>BUNDLE_DISPLAY_FIELD = '% ([^\:]+): (image|metadata)/(.*)'\<close>,
  \<^verbatim>\<open>WORKSHEET_TITLE_FIELD = '%\s*title:\s*(.*)'\<close>,
  \<^verbatim>\<open>WORKSHEET_DESCRIPTION_FIELD = '%\s*description:\s*(.*)'\<close>.
\<close>

definition DIRECTIVE_PREFIX :: regex where
  "DIRECTIVE_PREFIX = Chr CHR ''%''"

definition BUNDLE_LINE_REGEX :: "bool \<Rightarrow> regex" where
  "BUNDLE_LINE_REGEX d =
     seqs [Bol,
           Opt (Group 1 (seqs [Chr CHR ''['', Group 2 (Star (Dot d)), Chr CHR '']''])),
           Star Space, Chr CHR ''{'', Group 3 (Star (Dot d)), Chr CHR ''}'', Eol]"

definition BUNDLE_DISPLAY_DIRECTIVE :: "bool \<Rightarrow> regex" where
  "BUNDLE_DISPLAY_DIRECTIVE d =
     seqs [DIRECTIVE_PREFIX, lit '' display '',
           Group 1 (Alt (lit ''table'') (Alt (lit ''default'') (lit ''inline'')))]"

definition BUNDLE_DISPLAY_FIELD :: "bool \<Rightarrow> regex" where
  "BUNDLE_DISPLAY_FIELD d =
     seqs [DIRECTIVE_PREFIX, Chr CHR '' '', Group 1 (Plus (NotChr CHR '':'')), lit '': '',
           Group 2 (Alt (lit ''image'') (lit ''metadata'')), Chr CHR ''/'',
           Group 3 (Star (Dot d))]"

definition WORKSHEET_TITLE_FIELD :: "bool \<Rightarrow> regex" where
  "WORKSHEET_TITLE_FIELD d =
     seqs [DIRECTIVE_PREFIX, Star Space, lit ''title:'', Star Space, Group 1 (Star (Dot d))]"

definition WORKSHEET_DESCRIPTION_FIELD :: "bool \<Rightarrow> regex" where
  "WORKSHEET_DESCRIPTION_FIELD d =
     seqs [DIRECTIVE_PREFIX, Star Space, lit ''description:'', Star Space,
           Group 1 (Star (Dot d))]"

text \<open>
  \<^verbatim>\<open>MATCH_DISPLAY_EXPR = re.compile('.*' + BUNDLE_DISPLAY_DIRECTIVE + '.*', re.DOTALL)\<close>
  and \<^verbatim>\<open>MATCH_FIELD_EXPR = re.compile('.*' + BUNDLE_DISPLAY_FIELD + '.*', re.DOTALL)\<close>.
\<close>

definition MATCH_DISPLAY_EXPR :: regex where
  "MATCH_DISPLAY_EXPR = seqs [Star (Dot True), BUNDLE_DISPLAY_DIRECTIVE True, Star (Dot True)]"

definition MATCH_FIELD_EXPR :: regex where
  "MATCH_FIELD_EXPR = seqs [Star (Dot True), BUNDLE_DISPLAY_FIELD True, Star (Dot True)]"

section \<open>expand\_worksheet\_item\_info\<close>

definition directive_data :: dict where
  "directive_data =
     [(''type'', PStr ''directive''), (''name'', PNone), (''path'', PNone), (''value'', PNone)]"

text \<open>\<open>Pattern.match\<close> needs a string: on \<open>None\<close> or a dictionary it raises TypeError.\<close>

fun expand_worksheet_item_info :: "pyval \<Rightarrow> string \<Rightarrow> error + pyval" where
  "expand_worksheet_item_info val ty =
     (if ty = ''directive'' then
        (case val of
           PStr s \<Rightarrow>
             (case re_match MATCH_DISPLAY_EXPR s of
                Some match_display \<Rightarrow>
                  Inr (PDict [(''type'', PStr ''directive''),
                              (''directive'', PStr ''display''),
                              (''display'', of_group (group match_display 1)),
                              (''markup'', of_group (group match_display 0))])
              | None \<Rightarrow>
                  (case re_match MATCH_FIELD_EXPR s of
                     Some match_field \<Rightarrow>
                       Inr (PDict [(''type'', PStr ''directive''),
                                   (''directive'', of_group (group match_field 2)),
                                   (''name'', of_group (group match_field 1)),
                                   (''path'', of_group (group match_field 3)),
                                   (''markup'', of_group (group match_field 0))])
                   | None \<Rightarrow> Inr (PDict directive_data)))
         | _ \<Rightarrow> Inl TypeError)
      else Inr val)"

section \<open>get\_worksheet\_lines\<close>

text \<open>
  The body of the loop: the lines one item yields. Subscripting a string or \<open>None\<close> with
  \<open>'markup'\<close> raises TypeError, a dictionary without the key raises KeyError. The generator
  is modelled by the list of all its lines, or the error that interrupts it.
\<close>

definition broken_reference :: string where
  "broken_reference = ''// The following bundle reference is broken:''"

fun worksheet_item_lines :: "(dict \<Rightarrow> string) \<Rightarrow> info_item \<Rightarrow> error + pyval list" where
  "worksheet_item_lines drepr (bundle_info, val, ty) =
     (if ty = ''directive'' then
        (case val of
           PDict d \<Rightarrow>
             (case map_of d ''markup'' of
                None \<Rightarrow> Inl (KeyError ''markup'')
              | Some m \<Rightarrow> Inr [m])
         | _ \<Rightarrow> Inl TypeError)
      else if ty = ''title'' \<or> ty = ''description'' then
        Inr [PStr (''% '' @ ty @ '': '' @ py_str drepr val)]
      else
        (case bundle_info of
           None \<Rightarrow> Inr [val]
         | Some bi \<Rightarrow>
             (case map_of bi ''uuid'' of
                None \<Rightarrow> Inl (KeyError ''uuid'')
              | Some u \<Rightarrow>
                  Inr ((if map_of bi ''bundle_type'' = None then [PStr broken_reference] else [])
                       @ [PStr (''['' @ py_str drepr val @ '']{'' @ py_str drepr u @ ''}'')]))))"

fun worksheet_items_lines :: "(dict \<Rightarrow> string) \<Rightarrow> info_item list \<Rightarrow> error + pyval list" where
  "worksheet_items_lines drepr [] = Inr []"
| "worksheet_items_lines drepr (it # its) =
     (case worksheet_item_lines drepr it of
        Inl e \<Rightarrow> Inl e
      | Inr ls \<Rightarrow>
          (case worksheet_items_lines drepr its of
             Inl e \<Rightarrow> Inl e
           | Inr rest \<Rightarrow> Inr (ls @ rest)))"

definition get_worksheet_lines :: "(dict \<Rightarrow> string) \<Rightarrow> worksheet_info \<Rightarrow> error + pyval list" where
  "get_worksheet_lines drepr wi = worksheet_items_lines drepr (items wi)"

section \<open>parse\_worksheet\_form\<close>

text \<open>\<open>match.group(3).strip()\<close> raises AttributeError when the group took no part.\<close>

definition parse_worksheet_form_bundle :: "string \<times> mstate \<Rightarrow> error + parsed_item" where
  "parse_worksheet_form_bundle m =
     (let val = (case group m 2 of None \<Rightarrow> PNone | Some v \<Rightarrow> PStr (strip v)) in
      case group m 3 of
        None \<Rightarrow> Inl AttributeError
      | Some u \<Rightarrow> Inr (Some (strip u), val, ''bundle''))"

definition parse_worksheet_form_display :: "string \<times> mstate \<Rightarrow> error + parsed_item" where
  "parse_worksheet_form_display m = Inr (None, of_group (group m 0), ''directive'')"

text \<open>
  \<open>parse_worksheet_parse_table\<close> is a Python 2 dictionary, and the loop of
  \<open>parse_worksheet_form\<close> iterates over it: the patterns are tried in the order of the
  slots of its hash table, not in the order of the literal. The next definitions are
  CPython 2.7's \<open>string_hash\<close> (without hash randomisation) and the insertion of
  \<open>lookdict_string\<close> in a table of 8 slots (a literal of five entries is never resized);
  the words are the C \<open>long\<close> and \<open>size_t\<close> of the build.
\<close>

definition py2_string_hash :: "string \<Rightarrow> 'a::len word" where
  "py2_string_hash s =
     (if s = [] then 0
      else
        (let x = fold (\<lambda>c x. (1000003 * x) XOR of_char c) s (push_bit 7 (of_char (hd s)));
             y = x XOR of_nat (length s)
         in if y = - 1 then - 2 else y))"

text \<open>
  The probe sequence after a collision: \<open>i = (i << 2) + i + perturb + 1\<close>, then
  \<open>perturb >>= 5\<close>. The sequence reaches every slot; it is cut after \<open>fuel\<close> steps.
\<close>

fun probe :: "nat \<Rightarrow> nat option list \<Rightarrow> 'a::len word \<Rightarrow> 'a word \<Rightarrow> nat option" where
  "probe 0 slots i perturb = None"
| "probe (Suc fuel) slots i perturb =
     (let i' = push_bit 2 i + i + perturb + 1;
          k = unat (i' AND of_nat (length slots - 1))
      in if slots ! k = None then Some k
         else probe fuel slots i' (drop_bit 5 perturb))"

definition lookdict_string :: "nat option list \<Rightarrow> 'a::len word \<Rightarrow> nat option" where
  "lookdict_string slots h =
     (let i = h AND of_nat (length slots - 1)
      in if slots ! unat i = None then Some (unat i) else probe 64 slots i h)"

text \<open>The keys of a literal are stored one after the other; a slot holds the number of its key.\<close>

fun dict_insert_keys ::
    "(string \<Rightarrow> 'a::len word) \<Rightarrow> nat option list \<Rightarrow> nat \<Rightarrow> string list \<Rightarrow> nat option list option"
    where
  "dict_insert_keys hash slots n [] = Some slots"
| "dict_insert_keys hash slots n (k # ks) =
     (case lookdict_string slots (hash k) of
        None \<Rightarrow> None
      | Some j \<Rightarrow> dict_insert_keys hash (slots[j := Some n]) (Suc n) ks)"

text \<open>Iteration goes through the slots in order: the result lists the numbers of the keys.\<close>

definition dict_iteration_order :: "(string \<Rightarrow> 'a::len word) \<Rightarrow> string list \<Rightarrow> nat list" where
  "dict_iteration_order hash keys =
     (case dict_insert_keys hash (replicate 8 None) 0 keys of
        None \<Rightarrow> []
      | Some slots \<Rightarrow> List.map_filter id slots)"

text \<open>
  The pattern strings, which are the keys. \<open>backslash\<close> is the character \<^verbatim>\<open>\\<close>; in
  \<open>BUNDLE_LINE_REGEX\<close>, which is not a raw string, each backslash stands before a character
  Python does not take as an escape, so it stays.
\<close>

definition backslash :: string where
  "backslash = [CHR 0x5C]"

definition BUNDLE_LINE_REGEX_string :: string where
  "BUNDLE_LINE_REGEX_string =
     ''^('' @ backslash @ ''[(.*)'' @ backslash @ ''])?'' @ backslash @ ''s*'' @ backslash
       @ ''{(.*)'' @ backslash @ ''}$''"

definition BUNDLE_DISPLAY_DIRECTIVE_string :: string where
  "BUNDLE_DISPLAY_DIRECTIVE_string = ''%'' @ '' display (table|default|inline)''"

definition BUNDLE_DISPLAY_FIELD_string :: string where
  "BUNDLE_DISPLAY_FIELD_string =
     ''%'' @ '' ([^'' @ backslash @ '':]+): (image|metadata)/(.*)''"

definition WORKSHEET_TITLE_FIELD_string :: string where
  "WORKSHEET_TITLE_FIELD_string =
     ''%'' @ backslash @ ''s*title:'' @ backslash @ ''s*(.*)''"

definition WORKSHEET_DESCRIPTION_FIELD_string :: string where
  "WORKSHEET_DESCRIPTION_FIELD_string =
     ''%'' @ backslash @ ''s*description:'' @ backslash @ ''s*(.*)''"

text \<open>
  The entries of the dictionary literal, in the order in which they are written: the key,
  the tree of the key, and the constructor.
\<close>

definition parse_worksheet_parse_table_literal ::
    "(string \<times> (bool \<Rightarrow> regex) \<times> (string \<times> mstate \<Rightarrow> error + parsed_item)) list" where
  "parse_worksheet_parse_table_literal =
     [(BUNDLE_LINE_REGEX_string, BUNDLE_LINE_REGEX, parse_worksheet_form_bundle),
      (BUNDLE_DISPLAY_DIRECTIVE_string, BUNDLE_DISPLAY_DIRECTIVE, parse_worksheet_form_display),
      (BUNDLE_DISPLAY_FIELD_string, BUNDLE_DISPLAY_FIELD, parse_worksheet_form_display),
      (WORKSHEET_TITLE_FIELD_string, WORKSHEET_TITLE_FIELD,
         (\<lambda>m. Inr (None, of_group (group m 1), ''title''))),
      (WORKSHEET_DESCRIPTION_FIELD_string, WORKSHEET_DESCRIPTION_FIELD,
         (\<lambda>m. Inr (None, of_group (group m 1), ''description'')))]"

text \<open>
  The table as the loop sees it: the entries in the iteration order of the dictionary, on a
  64-bit build (a 32-bit build gives the same order, see \<open>parse_table_order_32\<close>).
  \<open>parse_worksheet_parse_table_exprs\<close> compiles each key without flags.
\<close>

definition parse_worksheet_parse_table ::
    "((bool \<Rightarrow> regex) \<times> (string \<times> mstate \<Rightarrow> error + parsed_item)) list" where
  "parse_worksheet_parse_table =
     map (\<lambda>i. snd (parse_worksheet_parse_table_literal ! i))
       (dict_iteration_order (py2_string_hash :: string \<Rightarrow> 64 word)
          (map fst parse_worksheet_parse_table_literal))"

definition parse_worksheet_parse_table_exprs :: "(bool \<Rightarrow> regex) \<Rightarrow> regex" where
  "parse_worksheet_parse_table_exprs k = k False"

text \<open>The inner loop over the table, on a stripped line, from the default result.\<close>

fun apply_parse_table ::
    "((bool \<Rightarrow> regex) \<times> (string \<times> mstate \<Rightarrow> error + parsed_item)) list \<Rightarrow> string
      \<Rightarrow> error + parsed_item" where
  "apply_parse_table [] line = Inr (None, PStr line, ''markup'')"
| "apply_parse_table ((line_parser, mk) # tbl) line =
     (case re_match (parse_worksheet_parse_table_exprs line_parser) line of
        Some m \<Rightarrow> mk m
      | None \<Rightarrow> apply_parse_table tbl line)"

fun parse_worksheet_form :: "string list \<Rightarrow> error + parsed_item list" where
  "parse_worksheet_form [] = Inr []"
| "parse_worksheet_form (l # form_result) =
     (let line = strip l in
      if take 2 line = ''//'' then parse_worksheet_form form_result
      else
        (case apply_parse_table parse_worksheet_parse_table line of
           Inl e \<Rightarrow> Inl e
         | Inr current_result \<Rightarrow>
             (case parse_worksheet_form form_result of
                Inl e \<Rightarrow> Inl e
              | Inr result \<Rightarrow> Inr (current_result # result))))"


section \<open>request\_new\_items\<close>

text \<open>
  The header is the stripped literal with the worksheet name substituted for \<open>%s\<close>.
\<close>

definition header :: "string \<Rightarrow> string" where
  "header nm =
     ''// Full-text editing for worksheet '' @ nm
       @ ''. This file is basically Markdown, except'' @ [newline]
       @ ''// that is used for comments and that lines of the form {bundle_spec} are'' @ [newline]
       @ ''// resolved as links to CodaLab bundles. You can even preface the curly braces''
       @ [newline]
       @ ''// with bracketed help text, like so: [some explanatory text]{bundle_spec}''"

text \<open>\<open>s.split('\n')\<close> and \<open>sep.join(xs)\<close>.\<close>

fun split_lines :: "string \<Rightarrow> string list" where
  "split_lines [] = [[]]"
| "split_lines (c # cs) =
     (if c = newline then [] # split_lines cs
      else (case split_lines cs of [] \<Rightarrow> [[c]] | l # ls \<Rightarrow> (c # l) # ls))"

fun join :: "string \<Rightarrow> string list \<Rightarrow> string" where
  "join sep [] = []"
| "join sep [x] = x"
| "join sep (x # xs) = x @ sep @ join sep xs"

definition linesep :: string where
  "linesep = [newline]"

text \<open>\<open>str.join\<close> raises TypeError on an element that is not a string.\<close>

fun strings_of :: "pyval list \<Rightarrow> string list option" where
  "strings_of [] = Some []"
| "strings_of (PStr s # vs) = map_option ((#) s) (strings_of vs)"
| "strings_of (_ # vs) = None"

text \<open>\<open>line[:-1] if line.endswith('\n') else line\<close>\<close>

definition chop_newline :: "string \<Rightarrow> string" where
  "chop_newline line = (if line \<noteq> [] \<and> last line = newline then butlast line else line)"

text \<open>
  The editor, the temporary file and the environment are outside the module. \<open>edit\<close> stands
  for them: from the template written to the file it gives the lines \<open>readlines\<close> reads
  back once the editor has returned, or \<open>None\<close> when the file is no longer there (the
  template lines are then used as they are).
\<close>

definition request_new_items ::
    "(dict \<Rightarrow> string) \<Rightarrow> (string \<Rightarrow> string list option) \<Rightarrow> worksheet_info
      \<Rightarrow> error + parsed_item list" where
  "request_new_items drepr edit wi =
     (case get_worksheet_lines drepr wi of
        Inl e \<Rightarrow> Inl e
      | Inr rendered \<Rightarrow>
          (case strings_of (map PStr (split_lines (header (name wi))) @ rendered) of
             None \<Rightarrow> Inl TypeError
           | Some template_lines \<Rightarrow>
               (let template = join linesep template_lines;
                    lines = (case edit template of None \<Rightarrow> template_lines | Some ls \<Rightarrow> ls);
                    form_result = map chop_newline lines
                in if form_result = template_lines
                   then Inl (UsageError ''No change made; aborting'')
                   else parse_worksheet_form form_result)))"


section \<open>Notions used in the statements\<close>

text \<open>The groups a successful match of a pattern has always set.\<close>

fun binds :: "regex \<Rightarrow> nat set" where
  "binds (Seq a b) = binds a \<union> binds b"
| "binds (Alt a b) = binds a \<inter> binds b"
| "binds (Group n r) = insert n (binds r)"
| "binds _ = {}"

definition caps :: "mstate \<Rightarrow> (nat \<times> string) list" where
  "caps st = snd (snd st)"

text \<open>A line is a comment when, stripped, it starts with two slashes.\<close>

definition is_comment :: "string \<Rightarrow> bool" where
  "is_comment l = (take 2 (strip l) = ''//'')"

text \<open>
  The two sub-records of a directive record: the display mode, and the field binding
  (name and path). A key counts as populated when it is there with a string.
\<close>

definition display_populated :: "dict \<Rightarrow> bool" where
  "display_populated d = (\<exists>v. map_of d ''display'' = Some (PStr v))"

definition field_populated :: "dict \<Rightarrow> bool" where
  "field_populated d =
     ((\<exists>v. map_of d ''name'' = Some (PStr v)) \<or> (\<exists>v. map_of d ''path'' = Some (PStr v)))"

text \<open>The result of \<open>parse_worksheet_form\<close> on one line, from the result for its item.\<close>

fun single :: "error + parsed_item \<Rightarrow> error + parsed_item list" where
  "single (Inl e) = Inl e"
| "single (Inr it) = Inr [it]"

text \<open>The position and the rest of the subject in a state of the matcher.\<close>

definition pos_of :: "mstate \<Rightarrow> nat" where
  "pos_of st = fst st"

definition rest_of :: "mstate \<Rightarrow> string" where
  "rest_of st = fst (snd st)"

text \<open>
  A pattern runs to the end when the first match it finds, on a subject in which its dots
  match every character, leaves nothing of the subject.
\<close>

definition to_end :: "bool \<Rightarrow> regex \<Rightarrow> bool" where
  "to_end d r = (\<forall>st. (d \<or> newline \<notin> set (rest_of st)) \<longrightarrow> matches r st \<noteq> [] \<longrightarrow>
                   rest_of (hd (matches r st)) = [])"

definition display_modes :: "string set" where
  "display_modes = {''table'', ''default'', ''inline''}"

text \<open>The part of the bundle pattern after the optional bracket group.\<close>

definition bundle_tail :: "bool \<Rightarrow> regex" where
  "bundle_tail d = seqs [Star Space, Chr CHR ''{'', Group 3 (Star (Dot d)), Chr CHR ''}'', Eol]"




text \<open>
  The order of the patterns that the specification states (its section 3): the order of the
  literal. It is compared with the order of the program.
\<close>

definition stated_parse_table ::
    "((bool \<Rightarrow> regex) \<times> (string \<times> mstate \<Rightarrow> error + parsed_item)) list" where
  "stated_parse_table = map snd parse_worksheet_parse_table_literal"




section \<open>Properties of the matcher\<close>

declare matches.simps(10) [simp del]

lemmas matches_Star = matches.simps(10)

lemma one_char_caps: "st' \<in> set (one_char P st) \<Longrightarrow> caps st' = caps st"
  by (cases "(P, st)" rule: one_char.cases) (auto split: if_splits simp: caps_def)

lemma capture_caps:
  "caps (capture n st st') = (n, take (fst st' - fst st) (fst (snd st))) # caps st'"
  by (cases st; cases st') (simp add: caps_def)

lemma matches_keeps_groups:
  "st' \<in> set (matches r st) \<Longrightarrow> map_of (caps st) n \<noteq> None \<Longrightarrow> map_of (caps st') n \<noteq> None"
proof (induction r st arbitrary: st' rule: matches.induct)
  case (8 a b st)
  from 8(3) obtain x where "x \<in> set (matches a st)" "st' \<in> set (matches b x)" by auto
  with 8 show ?case by blast
next
  case (10 r st)
  from 10(3) consider "st' = st"
    | x where "x \<in> set (filter (\<lambda>st'. remaining st' < remaining st) (matches r st))"
        "st' \<in> set (matches (Star r) x)"
    by (subst (asm) matches_Star) auto
  then show ?case
  proof cases
    case 1
    with 10(4) show ?thesis by simp
  next
    case 2
    with 10(1)[of x] 10(4) have "map_of (caps x) n \<noteq> None" by simp
    with 10(2)[OF 2(1) 2(2)] show ?thesis by simp
  qed
next
  case (12 n r st)
  then show ?case by (auto simp: capture_caps)
qed (auto simp: one_char_caps split: if_splits)

lemma matches_binds:
  "st' \<in> set (matches r st) \<Longrightarrow> n \<in> binds r \<Longrightarrow> map_of (caps st') n \<noteq> None"
proof (induction r st arbitrary: st' rule: matches.induct)
  case (8 a b st)
  from 8(3) obtain x where x: "x \<in> set (matches a st)" "st' \<in> set (matches b x)" by auto
  from 8(4) have "n \<in> binds a \<or> n \<in> binds b" by simp
  then show ?case
  proof
    assume "n \<in> binds a"
    with 8(1) x(1) have "map_of (caps x) n \<noteq> None" by blast
    with x(2) show ?thesis by (rule matches_keeps_groups)
  next
    assume "n \<in> binds b"
    with 8(2) x show ?thesis by blast
  qed
next
  case (12 n r st)
  then show ?case by (auto simp: capture_caps)
qed auto


lemma re_match_SomeD:
  "re_match r s = Some m \<Longrightarrow> \<exists>st. m = (s, st) \<and> st \<in> set (matches r (0, s, []))"
  by (auto simp: re_match_def split: list.splits)

lemma re_match_group:
  assumes "re_match r s = Some m" "0 < n" "n \<in> binds r"
  shows "\<exists>v. group m n = Some v"
proof -
  from assms(1) obtain st where st: "m = (s, st)" "st \<in> set (matches r (0, s, []))"
    by (auto dest: re_match_SomeD)
  from matches_binds[OF st(2) assms(3)] obtain v where "map_of (caps st) n = Some v" by auto
  with st(1) assms(2) show ?thesis by (cases st rule: prod_cases3) (auto simp: caps_def)
qed

lemma group0: "\<exists>v. group m 0 = Some v"
  by (cases m rule: prod_cases4) simp

section \<open>Properties of strip\<close>

lemma strip_idem: "strip (strip s) = strip s"
proof -
  define t where "t = dropWhile isspace s"
  have t: "t = [] \<or> \<not> isspace (hd t)" unfolding t_def
    by (cases "dropWhile isspace s = []") (simp_all add: hd_dropWhile)
  define u where "u = rev (dropWhile isspace (rev t))"
  have "u = [] \<or> \<not> isspace (hd u)"
  proof (cases "u = []")
    case False
    have "rev t = takeWhile isspace (rev t) @ dropWhile isspace (rev t)" by simp
    then have "t = u @ rev (takeWhile isspace (rev t))" unfolding u_def
      by (metis rev_append rev_rev_ident)
    with False have "hd u = hd t" "t \<noteq> []" by (metis hd_append2, metis append_is_Nil_conv)
    with t show ?thesis by simp
  qed simp
  then have "dropWhile isspace u = u" by (cases u) auto
  moreover have "rev (dropWhile isspace (rev u)) = u" unfolding u_def by simp
  ultimately show ?thesis unfolding strip_def t_def[symmetric] u_def[symmetric] by simp
qed

section \<open>Positions, literals and repetition in the matcher\<close>

lemma remaining_rest: "remaining st = length (rest_of st)"
  by (cases st rule: prod_cases3) (simp add: rest_of_def)

lemma one_char_pos:
  "st' \<in> set (one_char P st) \<Longrightarrow>
   \<exists>c. rest_of st = c # rest_of st' \<and> pos_of st' = Suc (pos_of st) \<and> P c"
  by (cases "(P, st)" rule: one_char.cases) (auto split: if_splits simp: rest_of_def pos_of_def)

lemma capture_pos: "pos_of (capture n st st') = pos_of st'" "rest_of (capture n st st') = rest_of st'"
  by (cases st rule: prod_cases3; cases st' rule: prod_cases3; simp add: pos_of_def rest_of_def)+

lemma matches_pos:
  "st' \<in> set (matches r st) \<Longrightarrow>
   \<exists>w. rest_of st = w @ rest_of st' \<and> pos_of st' = pos_of st + length w"
proof (induction r st arbitrary: st' rule: matches.induct)
  case (8 a b st)
  from 8(3) obtain x where x: "x \<in> set (matches a st)" "st' \<in> set (matches b x)" by auto
  from 8(1)[OF x(1)] obtain w1 where w1: "rest_of st = w1 @ rest_of x" "pos_of x = pos_of st + length w1"
    by auto
  from 8(2)[OF x] obtain w2 where w2: "rest_of x = w2 @ rest_of st'" "pos_of st' = pos_of x + length w2"
    by auto
  from w1 w2 have "rest_of st = (w1 @ w2) @ rest_of st' \<and> pos_of st' = pos_of st + length (w1 @ w2)"
    by simp
  then show ?case by blast
next
  case (10 r st)
  from 10(3) consider "st' = st"
    | x where "x \<in> set (filter (\<lambda>st'. remaining st' < remaining st) (matches r st))"
        "st' \<in> set (matches (Star r) x)"
    by (subst (asm) matches_Star) auto
  then show ?case
  proof cases
    case 1
    then show ?thesis by simp
  next
    case 2
    from 2(1) 10(1)[of x] obtain w1 where w1: "rest_of st = w1 @ rest_of x" "pos_of x = pos_of st + length w1"
      by auto
    from 10(2)[OF 2] obtain w2 where w2: "rest_of x = w2 @ rest_of st'" "pos_of st' = pos_of x + length w2"
      by auto
    from w1 w2 have "rest_of st = (w1 @ w2) @ rest_of st' \<and> pos_of st' = pos_of st + length (w1 @ w2)"
      by simp
    then show ?thesis by blast
  qed
next
  case (12 n r st)
  then show ?case by (auto simp: capture_pos)
qed (auto dest!: one_char_pos split: if_splits)

lemma hd_concat_map:
  "concat (map f xs) \<noteq> [] \<Longrightarrow> \<exists>x\<in>set xs. f x \<noteq> [] \<and> hd (concat (map f xs)) = hd (f x)"
  by (induction xs) (auto simp: hd_append)

lemma star_dot:
  "d \<or> newline \<notin> set s \<Longrightarrow>
   matches (Star (Dot d)) (p, s, g) = map (\<lambda>j. (p + j, drop j s, g)) (rev [0..<Suc (length s)])"
proof (induction s arbitrary: p)
  case Nil
  then show ?case by (simp add: matches_Star)
next
  case (Cons c s)
  have "[0..<Suc (Suc (length s))] = 0 # map Suc [0..<Suc (length s)]"
    using map_Suc_upt[of 0 "Suc (length s)"] upt_conv_Cons[of 0 "Suc (Suc (length s))"]
    by (simp del: upt_Suc)
  with Cons show ?case
    by (subst matches_Star) (auto simp: rev_map comp_def)
qed

lemma lit_Cons: "w \<noteq> [] \<Longrightarrow> lit (c # w) = Seq (Chr c) (lit w)"
  by (cases w) (simp_all add: lit_def)

lemma matches_lit:
  "matches (lit w) (p, s, g) =
     (if take (length w) s = w then [(p + length w, drop (length w) s, g)] else [])"
proof (induction w arbitrary: p s)
  case Nil
  then show ?case by (simp add: lit_def)
next
  case (Cons c w)
  show ?case
  proof (cases "w = []")
    case True
    then show ?thesis by (cases s) (auto simp: lit_def)
  next
    case False
    with Cons show ?thesis by (cases s) (auto simp: lit_Cons)
  qed
qed

lemma take_eqD: "take (length w) s = w \<Longrightarrow> s = w @ drop (length w) s"
  by (metis append_take_drop_id)

lemma take_prefix: "n = length w \<Longrightarrow> take n (w @ r) = w"
  by simp

section \<open>Patterns that run to the end of the subject\<close>

lemma to_endD:
  "to_end d r \<Longrightarrow> d \<or> newline \<notin> set (rest_of st) \<Longrightarrow> matches r st \<noteq> [] \<Longrightarrow>
   rest_of (hd (matches r st)) = []"
  unfolding to_end_def by blast

lemma star_nonempty [simp]: "matches (Star r) st \<noteq> []"
  by (subst matches_Star) simp

lemma matches_rest_subset:
  "st' \<in> set (matches r st) \<Longrightarrow> set (rest_of st') \<subseteq> set (rest_of st)"
  by (drule matches_pos) auto

lemma to_end_star: "to_end d (Star (Dot d))"
proof -
  have "rest_of (hd (matches (Star (Dot d)) (p, s, g))) = []" if "d \<or> newline \<notin> set s" for p s g
    using star_dot[OF that, of p g] by (simp add: rest_of_def)
  then show ?thesis unfolding to_end_def
    by (metis prod_cases3 rest_of_def fst_conv snd_conv)
qed

lemma to_end_group: "to_end d r \<Longrightarrow> to_end d (Group n r)"
  unfolding to_end_def by (auto simp: hd_map capture_pos)

lemma to_end_seq:
  assumes "to_end d b"
  shows "to_end d (Seq a b)"
  unfolding to_end_def
proof (intro allI impI)
  fix st
  assume ok: "d \<or> newline \<notin> set (rest_of st)" and ne: "matches (Seq a b) st \<noteq> []"
  from ne have "concat (map (matches b) (matches a st)) \<noteq> []" by simp
  from hd_concat_map[OF this] obtain x where x: "x \<in> set (matches a st)" "matches b x \<noteq> []"
    "hd (matches (Seq a b) st) = hd (matches b x)" by auto
  from matches_rest_subset[OF x(1)] ok have "d \<or> newline \<notin> set (rest_of x)" by auto
  from to_endD[OF assms this x(2)] x(3) show "rest_of (hd (matches (Seq a b) st)) = []" by simp
qed





lemma to_end_title: "to_end d (WORKSHEET_TITLE_FIELD d)"
  by (simp add: WORKSHEET_TITLE_FIELD_def to_end_seq to_end_group to_end_star)

lemma to_end_description: "to_end d (WORKSHEET_DESCRIPTION_FIELD d)"
  by (simp add: WORKSHEET_DESCRIPTION_FIELD_def to_end_seq to_end_group to_end_star)

lemma group_star_nonempty [simp]: "matches (Group n (Star r)) st \<noteq> []"
  by simp





section \<open>The order in which the patterns are tried\<close>

lemma dict_order_64:
  "dict_iteration_order (py2_string_hash :: string \<Rightarrow> 64 word)
     (map fst parse_worksheet_parse_table_literal) = [3, 4, 2, 0, 1]"
  by code_simp

lemma parse_table_order_32:
  "dict_iteration_order (py2_string_hash :: string \<Rightarrow> 32 word)
     (map fst parse_worksheet_parse_table_literal) = [3, 4, 2, 0, 1]"
  by code_simp

lemma parse_table_order:
  "parse_worksheet_parse_table =
     [(WORKSHEET_TITLE_FIELD, (\<lambda>m. Inr (None, of_group (group m 1), ''title''))),
      (WORKSHEET_DESCRIPTION_FIELD, (\<lambda>m. Inr (None, of_group (group m 1), ''description''))),
      (BUNDLE_DISPLAY_FIELD, parse_worksheet_form_display),
      (BUNDLE_LINE_REGEX, parse_worksheet_form_bundle),
      (BUNDLE_DISPLAY_DIRECTIVE, parse_worksheet_form_display)]"
  unfolding parse_worksheet_parse_table_def dict_order_64
  by (simp add: parse_worksheet_parse_table_literal_def)

lemma stated_table_order:
  "stated_parse_table =
     [(BUNDLE_LINE_REGEX, parse_worksheet_form_bundle),
      (BUNDLE_DISPLAY_DIRECTIVE, parse_worksheet_form_display),
      (BUNDLE_DISPLAY_FIELD, parse_worksheet_form_display),
      (WORKSHEET_TITLE_FIELD, (\<lambda>m. Inr (None, of_group (group m 1), ''title''))),
      (WORKSHEET_DESCRIPTION_FIELD, (\<lambda>m. Inr (None, of_group (group m 1), ''description'')))]"
  by (simp add: stated_parse_table_def parse_worksheet_parse_table_literal_def)

section \<open>The first character of a matching line\<close>

lemma bundle_not_slash: "re_match (BUNDLE_LINE_REGEX d) (CHR ''/'' # rest) = None"
  by (simp add: re_match_def BUNDLE_LINE_REGEX_def isspace_def matches_Star)

lemma bundle_not_percent: "re_match (BUNDLE_LINE_REGEX d) (CHR ''%'' # rest) = None"
  by (simp add: re_match_def BUNDLE_LINE_REGEX_def isspace_def matches_Star)

lemma title_starts_percent:
  "re_match (WORKSHEET_TITLE_FIELD d) s \<noteq> None \<Longrightarrow> \<exists>r. s = CHR ''%'' # r"
  by (cases s)
     (auto simp: re_match_def WORKSHEET_TITLE_FIELD_def DIRECTIVE_PREFIX_def split: if_splits)

lemma description_starts_percent:
  "re_match (WORKSHEET_DESCRIPTION_FIELD d) s \<noteq> None \<Longrightarrow> \<exists>r. s = CHR ''%'' # r"
  by (cases s)
     (auto simp: re_match_def WORKSHEET_DESCRIPTION_FIELD_def DIRECTIVE_PREFIX_def
           split: if_splits)

lemma field_starts_percent:
  "re_match (BUNDLE_DISPLAY_FIELD d) s \<noteq> None \<Longrightarrow> \<exists>r. s = CHR ''%'' # r"
  by (cases s)
     (auto simp: re_match_def BUNDLE_DISPLAY_FIELD_def DIRECTIVE_PREFIX_def split: if_splits)

lemma display_starts_percent:
  "re_match (BUNDLE_DISPLAY_DIRECTIVE d) s \<noteq> None \<Longrightarrow> \<exists>r. s = CHR ''%'' # r"
  by (cases s)
     (auto simp: re_match_def BUNDLE_DISPLAY_DIRECTIVE_def DIRECTIVE_PREFIX_def
           split: if_splits)

text \<open>A line the bundle pattern matches is matched by no other pattern of the table.\<close>

lemma bundle_excludes:
  assumes "re_match (BUNDLE_LINE_REGEX d) s = Some m"
  shows "re_match (WORKSHEET_TITLE_FIELD e) s = None"
    and "re_match (WORKSHEET_DESCRIPTION_FIELD e) s = None"
    and "re_match (BUNDLE_DISPLAY_FIELD e) s = None"
    and "re_match (BUNDLE_DISPLAY_DIRECTIVE e) s = None"
proof -
  from assms have np: "\<And>r. s \<noteq> CHR ''%'' # r" by (auto simp: bundle_not_percent)
  show "re_match (WORKSHEET_TITLE_FIELD e) s = None"
    using np title_starts_percent[of e s] by blast
  show "re_match (WORKSHEET_DESCRIPTION_FIELD e) s = None"
    using np description_starts_percent[of e s] by blast
  show "re_match (BUNDLE_DISPLAY_FIELD e) s = None"
    using np field_starts_percent[of e s] by blast
  show "re_match (BUNDLE_DISPLAY_DIRECTIVE e) s = None"
    using np display_starts_percent[of e s] by blast
qed


section \<open>The classifier is total\<close>

lemma bundle_binds: "3 \<in> binds (BUNDLE_LINE_REGEX d)"
  by (simp add: BUNDLE_LINE_REGEX_def)

lemma bundle_constructor:
  "re_match (BUNDLE_LINE_REGEX d) s = Some m \<Longrightarrow>
   \<exists>u. group m 3 = Some u \<and>
       parse_worksheet_form_bundle m =
         Inr (Some (strip u), (case group m 2 of None \<Rightarrow> PNone | Some v \<Rightarrow> PStr (strip v)),
              ''bundle'')"
  using re_match_group[where r = "BUNDLE_LINE_REGEX d" and s = s and m = m and n = 3]
  by (auto simp: bundle_binds parse_worksheet_form_bundle_def Let_def)

lemma apply_parse_table_total:
  "\<exists>it. apply_parse_table parse_worksheet_parse_table line = Inr it"
  using bundle_constructor[of False line]
  by (auto simp: parse_table_order parse_worksheet_parse_table_exprs_def
        parse_worksheet_form_display_def split: option.splits)

text \<open>
  C3. For every string \<open>s\<close>, \<open>parse_worksheet_form [s]\<close> raises no error: it returns the
  empty list when the stripped line starts with \<open>//\<close>, whatever follows, and a list of
  exactly one item otherwise.
\<close>

theorem parse_worksheet_form_total:
  "(is_comment s \<longrightarrow> parse_worksheet_form [s] = Inr []) \<and>
   (\<not> is_comment s \<longrightarrow> (\<exists>it. parse_worksheet_form [s] = Inr [it]))"
  using apply_parse_table_total[of "strip s"] by (auto simp: is_comment_def Let_def)

theorem parse_worksheet_form_total_witness:
  "is_comment ''  // [a]{b}'' \<and> parse_worksheet_form [''  // [a]{b}''] = Inr [] \<and>
   \<not> is_comment ''/ hello'' \<and> (\<exists>it. parse_worksheet_form [''/ hello''] = Inr [it])"
proof -
  have c: "is_comment ''  // [a]{b}''"
    by (simp add: is_comment_def strip_def isspace_def)
  have n: "\<not> is_comment ''/ hello''"
    by (simp add: is_comment_def strip_def isspace_def)
  from c n parse_worksheet_form_total[of "''  // [a]{b}''"]
    parse_worksheet_form_total[of "''/ hello''"]
  show ?thesis by blast
qed

text \<open>
  C10. For every line \<open>s\<close>, \<open>parse_worksheet_form\<close> gives the same result (the same item,
  or no item) for \<open>s\<close> and for \<open>s\<close> with its leading and trailing whitespace removed.
\<close>

theorem parse_worksheet_form_strip:
  "parse_worksheet_form [s] = parse_worksheet_form [strip s]"
  by (simp add: strip_idem)


section \<open>The directive expander\<close>

text \<open>
  C5. For every directive text that matches neither \<open>MATCH_DISPLAY_EXPR\<close> nor
  \<open>MATCH_FIELD_EXPR\<close>, \<open>expand_worksheet_item_info\<close> raises no error and returns the
  record \<open>data\<close>, in which name, path and value are \<open>None\<close> and there is no display.
\<close>

theorem directive_fallback:
  "re_match MATCH_DISPLAY_EXPR s = None \<Longrightarrow> re_match MATCH_FIELD_EXPR s = None \<Longrightarrow>
   expand_worksheet_item_info (PStr s) ''directive'' = Inr (PDict directive_data) \<and>
   map_of directive_data ''name'' = Some PNone \<and>
   map_of directive_data ''path'' = Some PNone \<and>
   map_of directive_data ''value'' = Some PNone \<and>
   map_of directive_data ''display'' = None"
  by (simp add: directive_data_def)

lemma no_display_in_foo: "re_match MATCH_DISPLAY_EXPR ''% foo: bar'' = None"
  by code_simp

lemma no_field_in_foo: "re_match MATCH_FIELD_EXPR ''% foo: bar'' = None"
  by code_simp

theorem directive_fallback_witness:
  "expand_worksheet_item_info (PStr ''% foo: bar'') ''directive'' = Inr (PDict directive_data) \<and>
   map_of directive_data ''name'' = Some PNone \<and>
   map_of directive_data ''path'' = Some PNone \<and>
   map_of directive_data ''value'' = Some PNone \<and>
   map_of directive_data ''display'' = None"
  by (rule directive_fallback[OF no_display_in_foo no_field_in_foo])

lemma display_binds: "1 \<in> binds MATCH_DISPLAY_EXPR"
  by (simp add: MATCH_DISPLAY_EXPR_def BUNDLE_DISPLAY_DIRECTIVE_def)

lemma field_binds:
  "1 \<in> binds MATCH_FIELD_EXPR" "2 \<in> binds MATCH_FIELD_EXPR" "3 \<in> binds MATCH_FIELD_EXPR"
  by (simp_all add: MATCH_FIELD_EXPR_def BUNDLE_DISPLAY_FIELD_def)

text \<open>
  C6. The record \<open>expand_worksheet_item_info\<close> returns for a directive never has both the
  display mode and the field binding: the display mode is there exactly when
  \<open>MATCH_DISPLAY_EXPR\<close> matches, the field binding exactly when it does not and
  \<open>MATCH_FIELD_EXPR\<close> matches.
\<close>

theorem directive_exclusive:
  assumes "expand_worksheet_item_info (PStr s) ''directive'' = Inr (PDict d)"
  shows "\<not> (display_populated d \<and> field_populated d) \<and>
    (display_populated d \<longleftrightarrow> re_match MATCH_DISPLAY_EXPR s \<noteq> None) \<and>
    (field_populated d \<longleftrightarrow>
       re_match MATCH_DISPLAY_EXPR s = None \<and> re_match MATCH_FIELD_EXPR s \<noteq> None)"
proof (cases "re_match MATCH_DISPLAY_EXPR s")
  case (Some m)
  from re_match_group[OF Some _ display_binds] obtain v where "group m 1 = Some v" by auto
  with Some assms show ?thesis
    by (auto simp: display_populated_def field_populated_def)
next
  case None
  note nd = this
  show ?thesis
  proof (cases "re_match MATCH_FIELD_EXPR s")
    case None
    with nd assms show ?thesis
      by (auto simp: display_populated_def field_populated_def directive_data_def)
  next
    case (Some m)
    from re_match_group[OF Some _ field_binds(1)] obtain v where "group m 1 = Some v" by auto
    with Some nd assms show ?thesis
      by (auto simp: display_populated_def field_populated_def)
  qed
qed

theorem directive_exclusive_witness:
  "expand_worksheet_item_info (PStr ''see % display table'') ''directive'' =
     Inr (PDict [(''type'', PStr ''directive''), (''directive'', PStr ''display''),
                 (''display'', PStr ''table''), (''markup'', PStr ''see % display table'')]) \<and>
   re_match MATCH_DISPLAY_EXPR ''see % display table'' \<noteq> None \<and>
   \<not> field_populated [(''type'', PStr ''directive''), (''directive'', PStr ''display''),
                 (''display'', PStr ''table''), (''markup'', PStr ''see % display table'')]"
proof -
  have e: "expand_worksheet_item_info (PStr ''see % display table'') ''directive'' =
     Inr (PDict [(''type'', PStr ''directive''), (''directive'', PStr ''display''),
                 (''display'', PStr ''table''), (''markup'', PStr ''see % display table'')])"
    by code_simp
  from directive_exclusive[OF e] e show ?thesis
    by (simp add: display_populated_def)
qed

section \<open>Rendering\<close>

text \<open>
  C4. Rendering does raise an error: the record \<open>expand_worksheet_item_info\<close> returns for
  a directive text that matches neither grammar has no key \<open>markup\<close>, and
  \<open>get_worksheet_lines\<close> raises KeyError on the directive item that holds it.
\<close>

theorem degraded_directive_not_rendered:
  "expand_worksheet_item_info (PStr ''% foo: bar'') ''directive'' = Inr (PDict directive_data) \<and>
   get_worksheet_lines drepr \<lparr>name = nm, items = [(None, PDict directive_data, ''directive'')]\<rparr>
     = Inl (KeyError ''markup'')"
  by (simp add: no_display_in_foo no_field_in_foo get_worksheet_lines_def directive_data_def)

section \<open>The form session\<close>

lemma strings_of_append:
  "strings_of (map PStr xs @ vs) = map_option ((@) xs) (strings_of vs)"
  by (induction xs) (simp_all add: option.map_comp comp_def option.map_ident)

text \<open>
  C9. In \<open>request_new_items\<close>, once the template is built: if the lines that come back from
  the editor (each without its final newline) are equal to the template lines, UsageError
  is raised and no item list is returned; otherwise the result is that of
  \<open>parse_worksheet_form\<close> on those lines.
\<close>

theorem no_change_detection:
  assumes "get_worksheet_lines drepr wi = Inr rendered"
    and "strings_of (map PStr (split_lines (header (name wi))) @ rendered) = Some template_lines"
    and "form_result =
           map chop_newline (case edit (join linesep template_lines) of
                               None \<Rightarrow> template_lines | Some ls \<Rightarrow> ls)"
  shows "(form_result = template_lines \<longrightarrow>
            request_new_items drepr edit wi = Inl (UsageError ''No change made; aborting'')) \<and>
         (form_result \<noteq> template_lines \<longrightarrow>
            request_new_items drepr edit wi = parse_worksheet_form form_result)"
  using assms by (simp add: request_new_items_def Let_def)

theorem no_change_detection_witness:
  "request_new_items (\<lambda>d. []) (\<lambda>t. None)
       \<lparr>name = ''w'', items = [(None, PStr ''hello'', ''markup'')]\<rparr>
     = Inl (UsageError ''No change made; aborting'') \<and>
   request_new_items (\<lambda>d. []) (\<lambda>t. Some [''{b1}'' @ [newline], ''bye''])
       \<lparr>name = ''w'', items = [(None, PStr ''hello'', ''markup'')]\<rparr>
     = Inr [(Some ''b1'', PNone, ''bundle''), (None, PStr ''bye'', ''markup'')]"
proof -
  define wi where "wi = \<lparr>name = ''w'', items = [(None, PStr ''hello'', ''markup'')]\<rparr>"
  define TL where "TL = split_lines (header ''w'') @ [''hello'']"
  have r: "get_worksheet_lines (\<lambda>d. []) wi = Inr [PStr ''hello'']"
    by (simp add: wi_def get_worksheet_lines_def)
  have t: "strings_of (map PStr (split_lines (header (name wi))) @ [PStr ''hello'']) = Some TL"
    by (simp add: strings_of_append wi_def TL_def)
  have same: "map chop_newline TL = TL"
    unfolding TL_def by code_simp
  have f1: "map chop_newline TL =
      map chop_newline (case (\<lambda>t. None) (join linesep TL) of None \<Rightarrow> TL | Some ls \<Rightarrow> ls)"
    by simp
  have f2: "[''{b1}'', ''bye''] =
      map chop_newline (case (\<lambda>t. Some [''{b1}'' @ [newline], ''bye'']) (join linesep TL) of
                          None \<Rightarrow> TL | Some ls \<Rightarrow> ls)"
    by (simp add: chop_newline_def newline_def)
  have diff: "[''{b1}'', ''bye''] \<noteq> TL"
    unfolding TL_def by code_simp
  have p: "parse_worksheet_form [''{b1}'', ''bye''] =
      Inr [(Some ''b1'', PNone, ''bundle''), (None, PStr ''bye'', ''markup'')]"
    by code_simp
  from no_change_detection[OF r t f1] same
  have "request_new_items (\<lambda>d. []) (\<lambda>t. None) wi = Inl (UsageError ''No change made; aborting'')"
    by simp
  moreover from no_change_detection[OF r t f2] diff p
  have "request_new_items (\<lambda>d. []) (\<lambda>t. Some [''{b1}'' @ [newline], ''bye'']) wi
     = Inr [(Some ''b1'', PNone, ''bundle''), (None, PStr ''bye'', ''markup'')]"
    by (simp del: parse_worksheet_form.simps)
  ultimately show ?thesis unfolding wi_def by simp
qed


section \<open>Bundle lines\<close>

lemma bundle_not_comment:
  assumes "re_match (BUNDLE_LINE_REGEX d) (strip s) = Some m"
  shows "\<not> is_comment s"
proof
  assume "is_comment s"
  then have "take 2 (strip s) = ''//''" by (simp add: is_comment_def)
  then obtain rest where "strip s = CHR ''/'' # rest" by (cases "strip s") auto
  with assms bundle_not_slash show False by simp
qed

lemma parse_worksheet_form_one:
  "\<not> is_comment s \<Longrightarrow>
   parse_worksheet_form [s] = single (apply_parse_table parse_worksheet_parse_table (strip s))"
  by (cases "apply_parse_table parse_worksheet_parse_table (strip s)")
     (simp_all add: is_comment_def Let_def)

text \<open>The loop over the table, unrolled in the order of iteration.\<close>

lemma apply_parse_table_cascade:
  "apply_parse_table parse_worksheet_parse_table line =
     (case re_match (WORKSHEET_TITLE_FIELD False) line of
        Some m \<Rightarrow> Inr (None, of_group (group m 1), ''title'')
      | None \<Rightarrow>
     (case re_match (WORKSHEET_DESCRIPTION_FIELD False) line of
        Some m \<Rightarrow> Inr (None, of_group (group m 1), ''description'')
      | None \<Rightarrow>
     (case re_match (BUNDLE_DISPLAY_FIELD False) line of
        Some m \<Rightarrow> Inr (None, of_group (group m 0), ''directive'')
      | None \<Rightarrow>
     (case re_match (BUNDLE_LINE_REGEX False) line of
        Some m \<Rightarrow> parse_worksheet_form_bundle m
      | None \<Rightarrow>
     (case re_match (BUNDLE_DISPLAY_DIRECTIVE False) line of
        Some m \<Rightarrow> Inr (None, of_group (group m 0), ''directive'')
      | None \<Rightarrow> Inr (None, PStr line, ''markup''))))))"
  by (simp add: parse_table_order parse_worksheet_parse_table_exprs_def
        parse_worksheet_form_display_def split: option.splits)

lemma bundle_line_item:
  assumes "re_match (BUNDLE_LINE_REGEX False) (strip s) = Some m"
  shows "\<exists>u. group m 3 = Some u \<and>
     parse_worksheet_form [s] =
       Inr [(Some (strip u), (case group m 2 of None \<Rightarrow> PNone | Some v \<Rightarrow> PStr (strip v)),
             ''bundle'')]"
proof -
  from bundle_constructor[OF assms] obtain u where
    u: "group m 3 = Some u" "parse_worksheet_form_bundle m =
         Inr (Some (strip u), (case group m 2 of None \<Rightarrow> PNone | Some v \<Rightarrow> PStr (strip v)),
              ''bundle'')"
    by auto
  from assms bundle_excludes[OF assms, of False] u(2)
  have "apply_parse_table parse_worksheet_parse_table (strip s) =
         Inr (Some (strip u), (case group m 2 of None \<Rightarrow> PNone | Some v \<Rightarrow> PStr (strip v)),
              ''bundle'')"
    by (simp add: apply_parse_table_cascade)
  with parse_worksheet_form_one[OF bundle_not_comment[OF assms]]
  have "parse_worksheet_form [s] =
       Inr [(Some (strip u), (case group m 2 of None \<Rightarrow> PNone | Some v \<Rightarrow> PStr (strip v)),
             ''bundle'')]"
    by (simp del: parse_worksheet_form.simps)
  with u(1) show ?thesis by blast
qed

text \<open>
  C7. For every line whose stripped form matches \<open>BUNDLE_LINE_REGEX\<close>, the classifier
  returns one item of kind bundle, whose \<open>bundle_uuid\<close> is the stripped third group (the
  contents of the braces) and whose value is the stripped second group (the contents of the
  brackets) when the bracket group took part and \<open>None\<close> otherwise.
\<close>

theorem bundle_line_decomposition:
  assumes "re_match (BUNDLE_LINE_REGEX False) (strip s) = Some m"
  shows "\<exists>u. group m 3 = Some u \<and>
     parse_worksheet_form [s] =
       Inr [(Some (strip u), (case group m 2 of None \<Rightarrow> PNone | Some v \<Rightarrow> PStr (strip v)),
             ''bundle'')]"
  using assms by (rule bundle_line_item)

theorem bundle_line_decomposition_witness:
  "re_match (BUNDLE_LINE_REGEX False) (strip ''[my favorite bundle]{a1b2c3}'') \<noteq> None \<and>
   parse_worksheet_form [''[my favorite bundle]{a1b2c3}''] =
     Inr [(Some ''a1b2c3'', PStr ''my favorite bundle'', ''bundle'')]"
proof -
  have st: "strip ''[my favorite bundle]{a1b2c3}'' = ''[my favorite bundle]{a1b2c3}''"
    by (simp add: strip_def isspace_def)
  have m: "re_match (BUNDLE_LINE_REGEX False) (strip ''[my favorite bundle]{a1b2c3}'') =
      Some (''[my favorite bundle]{a1b2c3}'', 28, [],
        [(3, ''a1b2c3''), (1, ''[my favorite bundle]''), (2, ''my favorite bundle'')])"
    unfolding st by code_simp
  from bundle_line_decomposition[OF m]
  have "parse_worksheet_form [''[my favorite bundle]{a1b2c3}''] =
     Inr [(Some (strip ''a1b2c3''), PStr (strip ''my favorite bundle''), ''bundle'')]"
    by (simp del: parse_worksheet_form.simps)
  moreover have "strip ''a1b2c3'' = ''a1b2c3''"
    "strip ''my favorite bundle'' = ''my favorite bundle''"
    by (simp_all add: strip_def isspace_def)
  ultimately show ?thesis using m by (simp del: parse_worksheet_form.simps)
qed

section \<open>The precedence of the patterns\<close>

text \<open>
  C2, as stated, fails. The claim has the patterns tried in the order of the literal:
  bundle line, display directive, field directive, title, description. The line
  \<open>% title: image/x\<close> matches the field pattern and the title pattern; in the stated order
  it would be a directive, and the program makes it a title.
\<close>

theorem classification_order_counterexample:
  "\<not> is_comment ''% title: image/x'' \<and>
   re_match (BUNDLE_DISPLAY_FIELD False) (strip ''% title: image/x'') \<noteq> None \<and>
   re_match (WORKSHEET_TITLE_FIELD False) (strip ''% title: image/x'') \<noteq> None \<and>
   single (apply_parse_table stated_parse_table (strip ''% title: image/x'')) =
     Inr [(None, PStr ''% title: image/x'', ''directive'')] \<and>
   parse_worksheet_form [''% title: image/x''] = Inr [(None, PStr ''image/x'', ''title'')]"
  by code_simp

text \<open>
  C2, amended. For every line that is not a comment, the classifier tries the patterns in
  the order in which the Python 2 dictionary is iterated, that is title, description, field
  directive, bundle line, display directive; it applies the constructor of the first that
  matches the stripped line and returns the stripped line as markup when none does. A line
  that matches the bundle pattern matches no other pattern, and is an item of kind bundle.
\<close>

theorem classification_order:
  assumes "\<not> is_comment s"
  shows "parse_worksheet_form [s] =
     (case re_match (WORKSHEET_TITLE_FIELD False) (strip s) of
        Some m \<Rightarrow> Inr [(None, of_group (group m 1), ''title'')]
      | None \<Rightarrow>
     (case re_match (WORKSHEET_DESCRIPTION_FIELD False) (strip s) of
        Some m \<Rightarrow> Inr [(None, of_group (group m 1), ''description'')]
      | None \<Rightarrow>
     (case re_match (BUNDLE_DISPLAY_FIELD False) (strip s) of
        Some m \<Rightarrow> Inr [(None, of_group (group m 0), ''directive'')]
      | None \<Rightarrow>
     (case re_match (BUNDLE_LINE_REGEX False) (strip s) of
        Some m \<Rightarrow> single (parse_worksheet_form_bundle m)
      | None \<Rightarrow>
     (case re_match (BUNDLE_DISPLAY_DIRECTIVE False) (strip s) of
        Some m \<Rightarrow> Inr [(None, of_group (group m 0), ''directive'')]
      | None \<Rightarrow> Inr [(None, PStr (strip s), ''markup'')])))))
   \<and> (re_match (BUNDLE_LINE_REGEX False) (strip s) \<noteq> None \<longrightarrow>
        re_match (WORKSHEET_TITLE_FIELD False) (strip s) = None \<and>
        re_match (WORKSHEET_DESCRIPTION_FIELD False) (strip s) = None \<and>
        re_match (BUNDLE_DISPLAY_FIELD False) (strip s) = None \<and>
        re_match (BUNDLE_DISPLAY_DIRECTIVE False) (strip s) = None \<and>
        (\<exists>u v. parse_worksheet_form [s] = Inr [(Some u, v, ''bundle'')]))"
proof -
  have "parse_worksheet_form [s] = single (apply_parse_table parse_worksheet_parse_table (strip s))"
    using assms by (rule parse_worksheet_form_one)
  then have first: "parse_worksheet_form [s] =
     (case re_match (WORKSHEET_TITLE_FIELD False) (strip s) of
        Some m \<Rightarrow> Inr [(None, of_group (group m 1), ''title'')]
      | None \<Rightarrow>
     (case re_match (WORKSHEET_DESCRIPTION_FIELD False) (strip s) of
        Some m \<Rightarrow> Inr [(None, of_group (group m 1), ''description'')]
      | None \<Rightarrow>
     (case re_match (BUNDLE_DISPLAY_FIELD False) (strip s) of
        Some m \<Rightarrow> Inr [(None, of_group (group m 0), ''directive'')]
      | None \<Rightarrow>
     (case re_match (BUNDLE_LINE_REGEX False) (strip s) of
        Some m \<Rightarrow> single (parse_worksheet_form_bundle m)
      | None \<Rightarrow>
     (case re_match (BUNDLE_DISPLAY_DIRECTIVE False) (strip s) of
        Some m \<Rightarrow> Inr [(None, of_group (group m 0), ''directive'')]
      | None \<Rightarrow> Inr [(None, PStr (strip s), ''markup'')])))))"
    by (simp add: apply_parse_table_cascade split: option.splits
          del: parse_worksheet_form.simps)
  have second: "re_match (WORKSHEET_TITLE_FIELD False) (strip s) = None \<and>
        re_match (WORKSHEET_DESCRIPTION_FIELD False) (strip s) = None \<and>
        re_match (BUNDLE_DISPLAY_FIELD False) (strip s) = None \<and>
        re_match (BUNDLE_DISPLAY_DIRECTIVE False) (strip s) = None \<and>
        (\<exists>u v. parse_worksheet_form [s] = Inr [(Some u, v, ''bundle'')])"
    if "re_match (BUNDLE_LINE_REGEX False) (strip s) = Some m" for m
    using bundle_line_item[OF that] bundle_excludes[OF that, of False] by blast
  from first second show ?thesis by blast
qed

theorem classification_order_witness:
  "\<not> is_comment ''  % title: image/x '' \<and>
   re_match (WORKSHEET_TITLE_FIELD False) ''% title: image/x'' \<noteq> None \<and>
   re_match (BUNDLE_DISPLAY_FIELD False) ''% title: image/x'' \<noteq> None \<and>
   parse_worksheet_form [''  % title: image/x ''] = Inr [(None, PStr ''image/x'', ''title'')]"
proof -
  have nc: "\<not> is_comment ''  % title: image/x ''"
    by (simp add: is_comment_def strip_def isspace_def)
  have st: "strip ''  % title: image/x '' = ''% title: image/x''"
    by (simp add: strip_def isspace_def)
  have t: "re_match (WORKSHEET_TITLE_FIELD False) ''% title: image/x''
      = Some (''% title: image/x'', 16, [], [(1, ''image/x'')])"
    by code_simp
  have f: "re_match (BUNDLE_DISPLAY_FIELD False) ''% title: image/x'' \<noteq> None"
    by code_simp
  from classification_order[OF nc] nc t f show ?thesis
    by (simp add: st del: parse_worksheet_form.simps)
qed

section \<open>Display directives in the classifier\<close>

lemma star_space_nil: "matches (Star Space) (p, [], g) = [(p, [], g)]"
  by (simp add: matches_Star)

lemma star_space_cons:
  "matches (Star Space) (p, c # s, g) =
     (if isspace c then matches (Star Space) (Suc p, s, g) @ [(p, c # s, g)] else [(p, c # s, g)])"
  by (simp add: matches_Star)

lemma star_space_stop:
  "s = [] \<or> \<not> isspace (hd s) \<Longrightarrow> matches (Star Space) (p, s, g) = [(p, s, g)]"
  by (cases s) (auto simp: star_space_nil star_space_cons)

lemma star_space_all:
  assumes "\<forall>c\<in>set ws. isspace c" "t = [] \<or> \<not> isspace (hd t)"
  shows "\<exists>tl. matches (Star Space) (p, ws @ t, g) = (p + length ws, t, g) # tl"
  using assms(1)
proof (induction ws arbitrary: p)
  case Nil
  with assms(2) show ?case by (simp add: star_space_stop)
next
  case (Cons c ws)
  then obtain tl where "matches (Star Space) (Suc p, ws @ t, g) = (Suc p + length ws, t, g) # tl"
    by fastforce
  with Cons(2) show ?case by (simp add: star_space_cons)
qed

lemma re_match_hd: "matches r (0, s, []) = st # rs \<Longrightarrow> re_match r s = Some (s, st)"
  by (simp add: re_match_def)

lemma display_at_start:
  assumes "mode \<in> display_modes"
  shows "re_match (BUNDLE_DISPLAY_DIRECTIVE d) (''% display '' @ mode @ rest) =
     Some (''% display '' @ mode @ rest, (10 + length mode, rest, [(1, mode)]))"
  using assms
  by (auto simp: display_modes_def re_match_def BUNDLE_DISPLAY_DIRECTIVE_def DIRECTIVE_PREFIX_def lit_def)

lemma display_only_at_start:
  assumes "re_match (BUNDLE_DISPLAY_DIRECTIVE d) line = Some m"
  shows "\<exists>mode rest. mode \<in> display_modes \<and> line = ''% display '' @ mode @ rest"
proof -
  from assms obtain c xs where l: "line = c # xs" 
    by (cases line) (auto simp: re_match_def BUNDLE_DISPLAY_DIRECTIVE_def DIRECTIVE_PREFIX_def)
  with assms have c: "c = CHR ''%''"
    by (auto simp: re_match_def BUNDLE_DISPLAY_DIRECTIVE_def DIRECTIVE_PREFIX_def split: if_splits)
  from assms l c have p: "take (length '' display '') xs = '' display ''"
    by (auto simp: re_match_def BUNDLE_DISPLAY_DIRECTIVE_def DIRECTIVE_PREFIX_def matches_lit
        split: if_splits)
  define ys where "ys = drop (length '' display '') xs"
  from take_eqD[OF p] have xs: "xs = '' display '' @ ys" by (simp add: ys_def)
  from assms l c p have "take (length ''table'') ys = ''table'' \<or> take (length ''default'') ys = ''default''
      \<or> take (length ''inline'') ys = ''inline''"
    by (auto simp: re_match_def BUNDLE_DISPLAY_DIRECTIVE_def DIRECTIVE_PREFIX_def matches_lit ys_def
        split: if_splits)
  then obtain mode where "mode \<in> display_modes" "take (length mode) ys = mode"
    unfolding display_modes_def by blast
  with take_eqD[OF this(2)] xs l c show ?thesis by auto
qed

lemma title_not_display: "re_match (WORKSHEET_TITLE_FIELD d) (''% display '' @ r) = None"
  by (simp add: re_match_def WORKSHEET_TITLE_FIELD_def DIRECTIVE_PREFIX_def lit_def
      star_space_cons isspace_def)

lemma description_not_display:
  "re_match (WORKSHEET_DESCRIPTION_FIELD d) (''% display '' @ r) = None"
  by (simp add: re_match_def WORKSHEET_DESCRIPTION_FIELD_def DIRECTIVE_PREFIX_def lit_def
      star_space_cons isspace_def)

lemma display_directive_item:
  assumes "mode \<in> display_modes" "strip s = ''% display '' @ mode @ rest"
  shows "\<exists>v. parse_worksheet_form [s] = Inr [(None, PStr v, ''directive'')] \<and>
     (re_match (BUNDLE_DISPLAY_FIELD False) (strip s) = None \<longrightarrow> v = ''% display '' @ mode) \<and>
     (\<forall>m. re_match (BUNDLE_DISPLAY_FIELD False) (strip s) = Some m \<longrightarrow> Some v = group m 0)"
proof -
  from assms(2) have nc: "\<not> is_comment s" by (simp add: is_comment_def)
  have t: "re_match (WORKSHEET_TITLE_FIELD False) (strip s) = None"
    unfolding assms(2) by (rule title_not_display)
  have d: "re_match (WORKSHEET_DESCRIPTION_FIELD False) (strip s) = None"
    unfolding assms(2) by (rule description_not_display)
  have b: "re_match (BUNDLE_LINE_REGEX False) (strip s) = None"
    unfolding assms(2) by (simp add: bundle_not_percent)
  have "take (10 + length mode) ((''% display '' @ mode) @ rest) = ''% display '' @ mode"
    by (rule take_prefix) simp
  then have g: "group (''% display '' @ mode @ rest, (10 + length mode, rest, [(1, mode)])) 0
      = Some (''% display '' @ mode)"
    by simp
  have p: "re_match (BUNDLE_DISPLAY_DIRECTIVE False) (strip s) =
      Some (''% display '' @ mode @ rest, (10 + length mode, rest, [(1, mode)]))"
    unfolding assms(2) by (rule display_at_start[OF assms(1)])
  show ?thesis
  proof (cases "re_match (BUNDLE_DISPLAY_FIELD False) (strip s)")
    case None
    with parse_worksheet_form_one[OF nc] t d b p g
    have "parse_worksheet_form [s] = Inr [(None, PStr (''% display '' @ mode), ''directive'')]"
      by (simp add: apply_parse_table_cascade del: group.simps parse_worksheet_form.simps)
    with None show ?thesis by simp
  next
    case (Some m)
    from group0[of m] obtain v where v: "group m 0 = Some v" by blast
    with parse_worksheet_form_one[OF nc] t d Some
    have "parse_worksheet_form [s] = Inr [(None, PStr v, ''directive'')]"
      by (simp add: apply_parse_table_cascade del: group.simps parse_worksheet_form.simps)
    with Some v show ?thesis by simp
  qed
qed

text \<open>
  C8, as stated, fails: the classifier does not search the line for the display directive.
  In \<open>see % display table\<close> the expression of the expander finds the directive, and the
  classifier returns the line as markup.
\<close>

theorem display_anywhere_counterexample:
  "re_match MATCH_DISPLAY_EXPR ''see % display table'' \<noteq> None \<and>
   parse_worksheet_form [''see % display table''] =
     Inr [(None, PStr ''see % display table'', ''markup'')]"
  by code_simp

text \<open>
  C8, amended. In the classifier the display pattern is matched at the start of the
  stripped line only: it matches exactly the lines that start with \<open>% display\<close>, a space
  and one of table, default, inline. Every such line gives a directive item. Its value is
  that start of the line, unless the field pattern, which is tried before, matches the
  line too: then the value is the text the field pattern matched.
\<close>

theorem display_directive_at_start:
  "(re_match (BUNDLE_DISPLAY_DIRECTIVE False) (strip s) \<noteq> None \<longleftrightarrow>
      (\<exists>mode\<in>display_modes. \<exists>rest. strip s = ''% display '' @ mode @ rest)) \<and>
   (\<forall>mode\<in>display_modes. \<forall>rest. strip s = ''% display '' @ mode @ rest \<longrightarrow>
      (\<exists>v. parse_worksheet_form [s] = Inr [(None, PStr v, ''directive'')] \<and>
           (re_match (BUNDLE_DISPLAY_FIELD False) (strip s) = None \<longrightarrow>
              v = ''% display '' @ mode) \<and>
           (\<forall>m. re_match (BUNDLE_DISPLAY_FIELD False) (strip s) = Some m \<longrightarrow>
              Some v = group m 0)))"
proof (intro conjI ballI allI impI)
  show "re_match (BUNDLE_DISPLAY_DIRECTIVE False) (strip s) \<noteq> None \<longleftrightarrow>
      (\<exists>mode\<in>display_modes. \<exists>rest. strip s = ''% display '' @ mode @ rest)"
  proof
    assume "re_match (BUNDLE_DISPLAY_DIRECTIVE False) (strip s) \<noteq> None"
    then obtain m where "re_match (BUNDLE_DISPLAY_DIRECTIVE False) (strip s) = Some m" by auto
    from display_only_at_start[OF this]
    show "\<exists>mode\<in>display_modes. \<exists>rest. strip s = ''% display '' @ mode @ rest" by blast
  next
    assume "\<exists>mode\<in>display_modes. \<exists>rest. strip s = ''% display '' @ mode @ rest"
    then obtain mode rest where "mode \<in> display_modes" "strip s = ''% display '' @ mode @ rest"
      by blast
    with display_at_start[of mode False rest]
    show "re_match (BUNDLE_DISPLAY_DIRECTIVE False) (strip s) \<noteq> None" by simp
  qed
next
  fix mode rest
  assume "mode \<in> display_modes" "strip s = ''% display '' @ mode @ rest"
  then show "\<exists>v. parse_worksheet_form [s] = Inr [(None, PStr v, ''directive'')] \<and>
           (re_match (BUNDLE_DISPLAY_FIELD False) (strip s) = None \<longrightarrow>
              v = ''% display '' @ mode) \<and>
           (\<forall>m. re_match (BUNDLE_DISPLAY_FIELD False) (strip s) = Some m \<longrightarrow>
              Some v = group m 0)"
    by (rule display_directive_item)
qed

theorem display_directive_at_start_witness:
  "''inline'' \<in> display_modes \<and>
   strip ''  % display inline, please'' = ''% display '' @ ''inline'' @ '', please'' \<and>
   parse_worksheet_form [''  % display inline, please''] =
     Inr [(None, PStr ''% display inline'', ''directive'')]"
proof -
  have md: "''inline'' \<in> display_modes" by (simp add: display_modes_def)
  have st: "strip ''  % display inline, please'' = ''% display '' @ ''inline'' @ '', please''"
    by (simp add: strip_def isspace_def)
  have nf: "re_match (BUNDLE_DISPLAY_FIELD False) (strip ''  % display inline, please'') = None"
    by code_simp
  from display_directive_at_start[of "''  % display inline, please''"] md st
  obtain v where "parse_worksheet_form [''  % display inline, please''] =
      Inr [(None, PStr v, ''directive'')]"
    "re_match (BUNDLE_DISPLAY_FIELD False) (strip ''  % display inline, please'') = None \<longrightarrow>
       v = ''% display '' @ ''inline''"
    by blast
  with nf md st show ?thesis by (simp del: parse_worksheet_form.simps)
qed

section \<open>Rendering what the classifier returns\<close>

lemma strip_id:
  assumes "s \<noteq> []" "\<not> isspace (hd s)" "\<not> isspace (last s)"
  shows "strip s = s"
proof -
  from assms(1,2) have a: "dropWhile isspace s = s" by (cases s) auto
  from assms(1,3) have "dropWhile isspace (rev s) = rev s"
    by (cases "rev s") (auto simp: last_rev[symmetric] hd_rev simp del: last_rev)
  with a show ?thesis by (simp add: strip_def)
qed












section \<open>The shape of bundle lines\<close>




lemma seq_first:
  "matches a st = x # r1 \<Longrightarrow> matches b x = y # r2 \<Longrightarrow> \<exists>rs. matches (Seq a b) st = y # rs"
  by simp

lemma bundle_tail_match:
  assumes "newline \<notin> set u" "\<forall>c\<in>set ws. isspace c"
  shows "\<exists>rs. matches (bundle_tail False) (p, ws @ ''{'' @ u @ ''}'', g) =
     (p + length ws + length u + 2, [], (3, u) # g) # rs"
proof -
  from star_space_all[OF assms(2), of "''{'' @ u @ ''}''" p g] obtain r1 where
    r1: "matches (Star Space) (p, ws @ ''{'' @ u @ ''}'', g) = (p + length ws, ''{'' @ u @ ''}'', g) # r1"
    by (auto simp: isspace_def)
  from assms(1) have nl: "newline \<notin> set (u @ ''}'')" by (simp add: newline_def)
  have "\<exists>r2. matches (Seq (Chr CHR ''{'') (Seq (Group 3 (Star (Dot False))) (Seq (Chr CHR ''}'') Eol)))
      (q, ''{'' @ u @ ''}'', g) = (q + length u + 2, [], (3, u) # g) # r2" for q
    using nl by (simp add: star_dot)
  then obtain r2 where
    r2: "matches (Seq (Chr CHR ''{'') (Seq (Group 3 (Star (Dot False))) (Seq (Chr CHR ''}'') Eol)))
      (p + length ws, ''{'' @ u @ ''}'', g) = (p + length ws + length u + 2, [], (3, u) # g) # r2"
    by blast
  have "bundle_tail False = Seq (Star Space)
     (Seq (Chr CHR ''{'') (Seq (Group 3 (Star (Dot False))) (Seq (Chr CHR ''}'') Eol)))"
    by (simp add: bundle_tail_def)
  with seq_first[OF r1 r2] show ?thesis by (simp only:)
qed


lemma bundle_regex_unfold:
  "BUNDLE_LINE_REGEX d =
     Seq Bol (Seq (Opt (Group 1 (Seq (Chr CHR ''['') (Seq (Group 2 (Star (Dot d))) (Chr CHR '']'')))))
                  (bundle_tail d))"
  by (simp add: BUNDLE_LINE_REGEX_def bundle_tail_def)



lemma bundle_brace_match:
  assumes "newline \<notin> set u" "\<forall>c\<in>set ws. isspace c"
  shows "\<exists>rs. matches (BUNDLE_LINE_REGEX False) (0, ws @ ''{'' @ u @ ''}'', []) =
     (length ws + length u + 2, [], [(3, u)]) # rs"
proof -
  let ?st0 = "(0, ws @ ''{'' @ u @ ''}'', [])"
  let ?G1 = "Group 1 (Seq (Chr CHR ''['') (Seq (Group 2 (Star (Dot False))) (Chr CHR '']'')))"
  from assms(2) have "matches (Chr CHR ''['') ?st0 = []"
    by (cases ws) (auto simp: isspace_def)
  then have o: "matches (Opt ?G1) ?st0 = ?st0 # []" by simp
  from bundle_tail_match[OF assms, of 0 "[]"] obtain r2 where
    r2: "matches (bundle_tail False) ?st0 = (0 + length ws + length u + 2, [], [(3, u)]) # r2"
    by blast
  from seq_first[OF o r2] obtain r3 where
    r3: "matches (Seq (Opt ?G1) (bundle_tail False)) ?st0 =
      (0 + length ws + length u + 2, [], [(3, u)]) # r3" by blast
  have b: "matches Bol ?st0 = ?st0 # []" by simp
  from seq_first[OF b r3] show ?thesis
    unfolding bundle_regex_unfold by (simp del: matches.simps)
qed



lemma brace_line_strip: "strip (''{'' @ u @ ''}'') = ''{'' @ u @ ''}''"
  by (rule strip_id) (simp_all add: isspace_def)


lemma bundle_brace_item:
  assumes "newline \<notin> set u"
  shows "parse_worksheet_form [''{'' @ u @ ''}''] = Inr [(Some (strip u), PNone, ''bundle'')]"
proof -
  let ?s = "''{'' @ u @ ''}''"
  from bundle_brace_match[OF assms, of "[]"] obtain rs where
    "matches (BUNDLE_LINE_REGEX False) (0, ?s, []) = (length u + 2, [], [(3, u)]) # rs"
    by auto
  from re_match_hd[OF this] have m: "re_match (BUNDLE_LINE_REGEX False) (strip ?s) =
     Some (?s, length u + 2, [], [(3, u)])"
    by (simp only: brace_line_strip)
  from bundle_line_item[OF m] show ?thesis by (simp del: parse_worksheet_form.simps)
qed


section \<open>The round trip\<close>





end
